theory Spec2Isabelle
  imports Complex_Main "HOL-Library.Sublist"
begin

section \<open>Distinctive words per genre: the tables of \<open>genre_wordcloud.py\<close>\<close>

text \<open>
  The script reads a pandas table of songs. A song carries text cells (among them the
  genre label) and word-count cells, both addressed by column name. The table knows which
  column names exist; as the docstring of the analysis asks, the columns named as word
  columns hold counts, which pandas keeps as 64-bit integers.
\<close>

record song =
  text_cells :: "string \<Rightarrow> string"
  count_cells :: "string \<Rightarrow> int"

record dataset =
  columns :: "string list"
  songs :: "song list"

datatype py_error = KeyError | ZeroDivisionError | IndexError | LibraryError string

text \<open>
  A Python \<open>dict\<close> keeps its keys in insertion order: it is an association list with
  distinct keys. Assigning to a key that is present replaces the value where it stands;
  assigning to a new key appends the entry.
\<close>

type_synonym ('k, 'v) dict = "('k \<times> 'v) list"

fun dict_set :: "('k, 'v) dict \<Rightarrow> 'k \<Rightarrow> 'v \<Rightarrow> ('k, 'v) dict" where
  "dict_set [] k v = [(k, v)]"
| "dict_set ((k', v') # d) k v = (if k' = k then (k, v) # d else (k', v') # dict_set d k v)"

definition keys :: "('k, 'v) dict \<Rightarrow> 'k list" where
  "keys d = map fst d"

type_synonym word_counts = "(string, int) dict"
type_synonym genre_word_counts = "(string, word_counts) dict"
type_synonym word_scores = "(string, real) dict"
type_synonym distinctive_words = "(string, (string \<times> real) list) dict"

text \<open>\<open>defaultdict(dict)\<close>: reading a missing genre yields the empty dictionary.\<close>

definition defaultdict_get :: "genre_word_counts \<Rightarrow> string \<Rightarrow> word_counts" where
  "defaultdict_get gwc genre = (case map_of gwc genre of None \<Rightarrow> [] | Some d \<Rightarrow> d)"

text \<open>\<open>Series.unique()\<close>: the distinct values in order of first appearance.\<close>

fun unique :: "'a list \<Rightarrow> 'a list" where
  "unique [] = []"
| "unique (x # xs) = x # filter (\<lambda>y. y \<noteq> x) (unique xs)"

subsection \<open>Step 1: word counts per genre\<close>

text \<open>
  \<open>df[df[genre_column] == genre][word_col].sum()\<close>. The sum of an \<open>int64\<close> column is an
  \<open>int64\<close>: it is the arithmetic sum brought back into the range from \<open>-2^63\<close> to
  \<open>2^63 - 1\<close> by wrapping around.
\<close>

definition wrap64 :: "int \<Rightarrow> int" where
  "wrap64 x = (x + 2 ^ 63) mod 2 ^ 64 - 2 ^ 63"

definition genre_songs :: "dataset \<Rightarrow> string \<Rightarrow> string \<Rightarrow> song list" where
  "genre_songs df genre_column genre =
     filter (\<lambda>s. text_cells s genre_column = genre) (songs df)"

definition exact_count :: "dataset \<Rightarrow> string \<Rightarrow> string \<Rightarrow> string \<Rightarrow> int" where
  "exact_count df genre_column genre word_col =
     sum_list (map (\<lambda>s. count_cells s word_col) (genre_songs df genre_column genre))"

definition total_count :: "dataset \<Rightarrow> string \<Rightarrow> string \<Rightarrow> string \<Rightarrow> int" where
  "total_count df genre_column genre word_col =
     wrap64 (exact_count df genre_column genre word_col)"

text \<open>
  The body of the inner loop. The assignment \<open>genre_word_counts[genre][word_col] = ...\<close>
  is the only place that touches the defaultdict, so a genre gets its entry with its first
  positive total.
\<close>

definition aggregate_word ::
  "dataset \<Rightarrow> string \<Rightarrow> string \<Rightarrow> genre_word_counts \<Rightarrow> string \<Rightarrow> genre_word_counts" where
  "aggregate_word df genre_column genre gwc word_col =
     (if word_col \<in> set (columns df) then
        (if total_count df genre_column genre word_col > 0 then
           dict_set gwc genre
             (dict_set (defaultdict_get gwc genre) word_col
                (total_count df genre_column genre word_col))
         else gwc)
      else gwc)"

definition aggregate_genre ::
  "dataset \<Rightarrow> string list \<Rightarrow> string \<Rightarrow> genre_word_counts \<Rightarrow> string \<Rightarrow> genre_word_counts" where
  "aggregate_genre df word_columns genre_column gwc genre =
     foldl (aggregate_word df genre_column genre) gwc word_columns"

definition aggregate :: "dataset \<Rightarrow> string list \<Rightarrow> string \<Rightarrow> genre_word_counts" where
  "aggregate df word_columns genre_column =
     foldl (aggregate_genre df word_columns genre_column) []
       (unique (map (\<lambda>s. text_cells s genre_column) (songs df)))"

subsection \<open>Step 2: scores and the top words\<close>

text \<open>\<open>sum(1 for g in genre_word_counts if word in genre_word_counts[g])\<close>\<close>

definition df_count :: "genre_word_counts \<Rightarrow> string \<Rightarrow> nat" where
  "df_count gwc word = length (filter (\<lambda>(g, d). word \<in> set (keys d)) gwc)"

text \<open>
  \<open>np.log(len(genre_word_counts) / df_count)\<close>: both operands are Python integers, so a
  zero \<open>df_count\<close> raises. A score is written as the real number that the expression of
  the script denotes.
\<close>

definition idf :: "genre_word_counts \<Rightarrow> string \<Rightarrow> py_error + real" where
  "idf gwc word =
     (if df_count gwc word = 0 then Inl ZeroDivisionError
      else Inr (ln (real (length gwc) / real (df_count gwc word))))"

text \<open>
  The body of the loop over the words of one genre: \<open>tf = genre_word_counts[genre][word]\<close>
  reads the inner dictionary, a plain \<open>dict\<close>, and raises for a word that is not in it.
\<close>

definition score_word ::
  "genre_word_counts \<Rightarrow> string \<Rightarrow> word_scores \<Rightarrow> string \<Rightarrow> py_error + word_scores" where
  "score_word gwc genre ws word =
     (case map_of (defaultdict_get gwc genre) word of
        None \<Rightarrow> Inl KeyError
      | Some tf \<Rightarrow>
          (case idf gwc word of
             Inl e \<Rightarrow> Inl e
           | Inr i \<Rightarrow> Inr (dict_set ws word (real_of_int tf * i))))"

fun score_words ::
  "genre_word_counts \<Rightarrow> string \<Rightarrow> word_scores \<Rightarrow> string list \<Rightarrow> py_error + word_scores" where
  "score_words gwc genre ws [] = Inr ws"
| "score_words gwc genre ws (word # rest) =
     (case score_word gwc genre ws word of
        Inl e \<Rightarrow> Inl e
      | Inr ws' \<Rightarrow> score_words gwc genre ws' rest)"

text \<open>
  \<open>sorted(items, key=lambda x: x[1], reverse=True)\<close>. The keys the script compares are
  \<open>float64\<close> numbers, the rounded values of the scores. Which \<open>float64\<close> number the script
  holds for an entry is given by the function \<open>float64\<close>, of which nothing is assumed, so
  that whatever is shown of the ranking holds for every rounding. With \<open>reverse=True\<close>
  Python reverses the list, sorts it stably into ascending order and reverses it again;
  \<open>sort_key\<close> is such a stable sort.
\<close>

definition sorted_reverse ::
  "(string \<times> real \<Rightarrow> 'k::linorder) \<Rightarrow> (string \<times> real) list \<Rightarrow> (string \<times> real) list" where
  "sorted_reverse float64 items = rev (sort_key float64 (rev items))"

text \<open>The slice \<open>xs[:n]\<close>; a negative \<open>n\<close> counts from the end.\<close>

definition slice_to :: "'a list \<Rightarrow> int \<Rightarrow> 'a list" where
  "slice_to xs n = (if 0 \<le> n then take (nat n) xs else take (length xs - nat (- n)) xs)"

definition top_words ::
  "(string \<times> real \<Rightarrow> 'k::linorder) \<Rightarrow> word_scores \<Rightarrow> int \<Rightarrow> (string \<times> real) list" where
  "top_words float64 ws top_n = slice_to (sorted_reverse float64 ws) top_n"

fun score_genres ::
  "(string \<times> real \<Rightarrow> 'k::linorder) \<Rightarrow> genre_word_counts \<Rightarrow> int \<Rightarrow> distinctive_words
     \<Rightarrow> string list \<Rightarrow> py_error + distinctive_words" where
  "score_genres float64 gwc top_n dw [] = Inr dw"
| "score_genres float64 gwc top_n dw (genre # rest) =
     (case score_words gwc genre [] (keys (defaultdict_get gwc genre)) of
        Inl e \<Rightarrow> Inl e
      | Inr ws \<Rightarrow>
          score_genres float64 gwc top_n (dict_set dw genre (top_words float64 ws top_n)) rest)"

text \<open>The whole function; \<open>df[genre_column]\<close> raises when the table has no such column.\<close>

definition analyze_genre_distinctive_words ::
  "(string \<times> real \<Rightarrow> 'k::linorder) \<Rightarrow> dataset \<Rightarrow> string list \<Rightarrow> string \<Rightarrow> int
     \<Rightarrow> py_error + distinctive_words" where
  "analyze_genre_distinctive_words float64 df word_columns genre_column top_n =
     (if genre_column \<notin> set (columns df) then Inl KeyError
      else score_genres float64 (aggregate df word_columns genre_column) top_n []
             (keys (aggregate df word_columns genre_column)))"

subsection \<open>Rendering\<close>

text \<open>\<open>str.replace(old, new)\<close> for single characters.\<close>

definition replace :: "char \<Rightarrow> char \<Rightarrow> string \<Rightarrow> string" where
  "replace old new s = map (\<lambda>c. if c = old then new else c) s"

text \<open>The renderers' \<open>word.replace('_', ' ')\<close>.\<close>

abbreviation spaced :: "string \<Rightarrow> string" where
  "spaced w \<equiv> replace CHR ''_'' CHR '' '' w"

text \<open>\<open>{word.replace('_', ' '): score for word, score in words}\<close>\<close>

definition word_freq :: "(string \<times> real) list \<Rightarrow> word_scores" where
  "word_freq words =
     foldl (\<lambda>d p. dict_set d (replace CHR ''_'' CHR '' '' (fst p)) (snd p)) [] words"

text \<open>
  The drawing and the files are the work of libraries outside the script, and each of
  their calls may raise. They are taken as they come, as the answers they give in one run
  of a renderer: \<open>generate\<close> stands for \<open>WordCloud(...).generate_from_frequencies\<close> and
  yields an image or an error, \<open>subplots\<close> stands for \<open>plt.subplots\<close> and yields the
  number of axes of the grid or an error, and \<open>savefig\<close> tells for a path whether writing
  the file there fails. An error ends the function on the spot.
\<close>

type_synonym 'img generate = "word_scores \<Rightarrow> py_error + 'img"

text \<open>
  A cell of the grid: a word cloud under a title, or a text placeholder for a genre without
  words.
\<close>

datatype 'img cell = Cloud string 'img | Placeholder string

text \<open>The body of the loop of the grid, for the genre at index \<open>i\<close> of \<open>n\<close> axes.\<close>

definition render_cell ::
  "'img generate \<Rightarrow> nat \<Rightarrow> nat \<Rightarrow> string \<times> (string \<times> real) list \<Rightarrow> py_error + 'img cell" where
  "render_cell generate n i p =
     (case p of (genre, words) \<Rightarrow>
        (if word_freq words \<noteq> [] then
           (case generate (word_freq words) of
              Inl e \<Rightarrow> Inl e
            | Inr img \<Rightarrow>
                if n \<le> i then Inl IndexError
                else Inr (Cloud (genre @ '' - Distinctive Words'') img))
         else if n \<le> i then Inl IndexError
         else Inr (Placeholder (genre @ [CHR 0x0A] @ ''(No distinctive words)''))))"

fun render_cells ::
  "'img generate \<Rightarrow> nat \<Rightarrow> nat \<Rightarrow> distinctive_words \<Rightarrow> py_error + 'img cell list" where
  "render_cells generate n i [] = Inr []"
| "render_cells generate n i (p # rest) =
     (case render_cell generate n i p of
        Inl e \<Rightarrow> Inl e
      | Inr c \<Rightarrow>
          (case render_cells generate n (Suc i) rest of
             Inl e \<Rightarrow> Inl e
           | Inr cs \<Rightarrow> Inr (c # cs)))"

text \<open>
  The grid: \<open>rows = (len(genres) + cols - 1) // cols\<close> raises for \<open>cols = 0\<close>. The cells
  are listed genre by genre; axes beyond the last genre are switched off and not listed.
\<close>

definition create_genre_wordclouds ::
  "'img generate \<Rightarrow> (int \<Rightarrow> int \<Rightarrow> py_error + nat) \<Rightarrow> distinctive_words \<Rightarrow> int
     \<Rightarrow> py_error + 'img cell list" where
  "create_genre_wordclouds generate subplots dw cols =
     (if cols = 0 then Inl ZeroDivisionError
      else (case subplots ((int (length dw) + cols - 1) div cols) cols of
              Inl e \<Rightarrow> Inl e
            | Inr n \<Rightarrow> render_cells generate n 0 dw))"

text \<open>
  The files: the store maps a path to the image saved there. A genre whose frequency
  dictionary is empty is passed over. The function hands back the store as it stands when
  the loop ends, and the error if one ended it.
\<close>

definition wordcloud_path :: "string \<Rightarrow> string \<Rightarrow> string" where
  "wordcloud_path save_path genre =
     save_path @ replace CHR ''/'' CHR ''_'' genre @ ''_wordcloud.png''"

fun save_individual_wordclouds ::
  "'img generate \<Rightarrow> (string \<Rightarrow> py_error option) \<Rightarrow> distinctive_words \<Rightarrow> string
     \<Rightarrow> (string \<rightharpoonup> 'img) \<Rightarrow> (string \<rightharpoonup> 'img) \<times> py_error option" where
  "save_individual_wordclouds generate savefig [] save_path files = (files, None)"
| "save_individual_wordclouds generate savefig ((genre, words) # rest) save_path files =
     (if word_freq words \<noteq> [] then
        (case generate (word_freq words) of
           Inl e \<Rightarrow> (files, Some e)
         | Inr img \<Rightarrow>
             (case savefig (wordcloud_path save_path genre) of
                Some e \<Rightarrow> (files, Some e)
              | None \<Rightarrow>
                  save_individual_wordclouds generate savefig rest save_path
                    (files(wordcloud_path save_path genre \<mapsto> img))))
      else save_individual_wordclouds generate savefig rest save_path files)"

subsection \<open>Closed forms of the loops\<close>

text \<open>
  A word is counted for a genre when its column exists and its total over the genre's
  songs is positive. The dictionary the inner loop builds for a genre lists the counted
  words in the order of their first mention in \<open>word_columns\<close>.
\<close>

definition counted :: "dataset \<Rightarrow> string \<Rightarrow> string \<Rightarrow> string \<Rightarrow> bool" where
  "counted df genre_column genre w \<longleftrightarrow>
     w \<in> set (columns df) \<and> 0 < total_count df genre_column genre w"

definition count_step :: "dataset \<Rightarrow> string \<Rightarrow> string \<Rightarrow> word_counts \<Rightarrow> string \<Rightarrow> word_counts" where
  "count_step df genre_column genre d w =
     (if counted df genre_column genre w then dict_set d w (total_count df genre_column genre w) else d)"

definition counts_for :: "dataset \<Rightarrow> string list \<Rightarrow> string \<Rightarrow> string \<Rightarrow> word_counts" where
  "counts_for df word_columns genre_column genre =
     map (\<lambda>w. (w, total_count df genre_column genre w))
       (filter (counted df genre_column genre) (unique word_columns))"

text \<open>The genre labels of the table, as the outer loop visits them.\<close>

definition genres :: "dataset \<Rightarrow> string \<Rightarrow> string list" where
  "genres df genre_column = unique (map (\<lambda>s. text_cells s genre_column) (songs df))"

text \<open>The entry a scored word gets, and the entry a genre gets in the result.\<close>

definition tf_idf :: "genre_word_counts \<Rightarrow> string \<times> int \<Rightarrow> string \<times> real" where
  "tf_idf gwc p =
     (fst p, real_of_int (snd p) * ln (real (length gwc) / real (df_count gwc (fst p))))"

definition scored ::
  "(string \<times> real \<Rightarrow> 'k::linorder) \<Rightarrow> genre_word_counts \<Rightarrow> int \<Rightarrow> string \<times> word_counts
     \<Rightarrow> string \<times> (string \<times> real) list" where
  "scored float64 gwc top_n e = (fst e, top_words float64 (map (tf_idf gwc) (snd e)) top_n)"

subsection \<open>The quantities of the specification\<close>

text \<open>
  The number of genres present in the counts, and the number of those genres whose
  dictionary contains a given word, as sets are counted; and the genres in which a word
  has a positive count.
\<close>

definition genre_count :: "genre_word_counts \<Rightarrow> nat" where
  "genre_count gwc = card (set (keys gwc))"

definition document_frequency :: "genre_word_counts \<Rightarrow> string \<Rightarrow> nat" where
  "document_frequency gwc w =
     card {g \<in> set (keys gwc). \<exists>d. map_of gwc g = Some d \<and> w \<in> set (keys d)}"

definition genres_with :: "genre_word_counts \<Rightarrow> string \<Rightarrow> string set" where
  "genres_with gwc w = {g. \<exists>d c. map_of gwc g = Some d \<and> map_of d w = Some c \<and> 0 < c}"

subsection \<open>A small table\<close>

text \<open>
  Two rock songs, a jazz song and a pop song without any of the words. The word list
  names a column, \<open>tempo\<close>, that the table does not have. In the examples the rounding is
  exact, the library draws every dictionary (the image is the dictionary), every file can
  be written and the grid has its \<open>rows * cols\<close> axes.
\<close>

definition song_of :: "string \<Rightarrow> (string \<times> int) list \<Rightarrow> song" where
  "song_of g cs =
     \<lparr>text_cells = (\<lambda>c. if c = ''genre'' then g else []),
      count_cells = (\<lambda>c. case map_of cs c of None \<Rightarrow> 0 | Some n \<Rightarrow> n)\<rparr>"

definition example_df :: dataset where
  "example_df =
     \<lparr>columns = [''genre'', ''guitar'', ''swing'', ''love'', ''baby''],
      songs = [song_of ''rock'' [(''guitar'', 6), (''love'', 5), (''baby'', 2)],
               song_of ''jazz'' [(''swing'', 5), (''love'', 5), (''baby'', 1)],
               song_of ''rock'' [(''guitar'', 4)],
               song_of ''pop'' []]\<rparr>"

definition example_words :: "string list" where
  "example_words = [''guitar'', ''swing'', ''love'', ''baby'', ''tempo'']"

definition example_counts :: genre_word_counts where
  "example_counts =
     [(''rock'', [(''guitar'', 10), (''love'', 5), (''baby'', 2)]),
      (''jazz'', [(''swing'', 5), (''love'', 5), (''baby'', 1)])]"

definition exact :: "string \<times> real \<Rightarrow> real" where
  "exact p = snd p"

definition draws_all :: "word_scores generate" where
  "draws_all freqs = Inr freqs"

definition writes_all :: "string \<Rightarrow> py_error option" where
  "writes_all path = None"

definition full_grid :: "int \<Rightarrow> int \<Rightarrow> py_error + nat" where
  "full_grid rows cols = Inr (nat (rows * cols))"

section \<open>Properties\<close>

subsection \<open>The loops in closed form\<close>

lemma set_unique [simp]: "set (unique xs) = set xs"
  by (induction xs) auto

lemma distinct_unique [simp]: "distinct (unique xs)"
  by (induction xs) auto

lemma dict_set_new: "k \<notin> fst ` set d \<Longrightarrow> dict_set d k v = d @ [(k, v)]"
  by (induction d) auto

lemma dict_set_last: "k \<notin> fst ` set d \<Longrightarrow> dict_set (d @ [(k, u)]) k v = d @ [(k, v)]"
  by (induction d) auto

lemma dict_set_triv: "map_of d k = Some v \<Longrightarrow> dict_set d k v = d"
  by (induction d) (auto split: if_splits)

lemma map_of_dict_set: "map_of (dict_set d k v) = (map_of d)(k \<mapsto> v)"
  by (induction d) auto

lemma map_of_None_keys: "k \<notin> fst ` set d \<Longrightarrow> map_of d k = None"
  by (simp add: map_of_eq_None_iff)

lemma map_of_snoc_new: "k \<notin> fst ` set d \<Longrightarrow> map_of (d @ [(k, v)]) k = Some v"
  by (induction d) auto

lemma aggregate_word_last:
  assumes "g \<notin> fst ` set gwc"
  shows "aggregate_word df gc g (gwc @ [(g, d)]) w = gwc @ [(g, count_step df gc g d w)]"
  using assms
  by (simp add: aggregate_word_def count_step_def counted_def defaultdict_get_def
      map_add_def map_of_None_keys dict_set_last)

lemma foldl_aggregate_word_last:
  assumes "g \<notin> fst ` set gwc"
  shows "foldl (aggregate_word df gc g) (gwc @ [(g, d)]) ws
         = gwc @ [(g, foldl (count_step df gc g) d ws)]"
  using assms
  by (induction ws arbitrary: d) (simp_all add: aggregate_word_last)

lemma aggregate_word_new:
  assumes "g \<notin> fst ` set gwc"
  shows "aggregate_word df gc g gwc w =
          (if counted df gc g w then gwc @ [(g, count_step df gc g [] w)] else gwc)"
  using assms
  by (auto simp add: aggregate_word_def count_step_def counted_def defaultdict_get_def
      map_of_None_keys dict_set_new)

lemma count_step_skip: "\<not> counted df gc g w \<Longrightarrow> count_step df gc g d w = d"
  by (simp add: count_step_def)

lemma foldl_count_step_skip:
  "filter (counted df gc g) ws = [] \<Longrightarrow> foldl (count_step df gc g) d ws = d"
  by (induction ws arbitrary: d) (auto simp: count_step_skip split: if_splits)

lemma foldl_aggregate_word_new:
  assumes "g \<notin> fst ` set gwc"
  shows "foldl (aggregate_word df gc g) gwc ws =
          (if filter (counted df gc g) ws = [] then gwc
           else gwc @ [(g, foldl (count_step df gc g) [] ws)])"
  using assms
proof (induction ws)
  case Nil
  then show ?case by simp
next
  case (Cons w ws)
  show ?case
  proof (cases "counted df gc g w")
    case True
    then show ?thesis
      using Cons.prems by (simp add: aggregate_word_new foldl_aggregate_word_last)
  next
    case False
    then show ?thesis
      using Cons by (simp add: aggregate_word_new count_step_skip)
  qed
qed

lemma foldl_count_step:
  assumes "distinct ks"
  shows "foldl (count_step df gc g) (map (\<lambda>w. (w, total_count df gc g w)) ks) ws
         = map (\<lambda>w. (w, total_count df gc g w))
             (ks @ filter (\<lambda>w. counted df gc g w \<and> w \<notin> set ks) (unique ws))"
  using assms
proof (induction ws arbitrary: ks)
  case Nil
  then show ?case by simp
next
  case (Cons w ws)
  let ?v = "\<lambda>w. (w, total_count df gc g w)"
  have flt: "\<And>Q. filter Q (filter (\<lambda>y. y \<noteq> w) (unique ws)) = filter (\<lambda>y. y \<noteq> w \<and> Q y) (unique ws)"
    by simp
  show ?case
  proof (cases "counted df gc g w")
    case False
    then have eq: "filter (\<lambda>y. y \<noteq> w \<and> counted df gc g y \<and> y \<notin> set ks) (unique ws)
       = filter (\<lambda>y. counted df gc g y \<and> y \<notin> set ks) (unique ws)"
      by (intro filter_cong) auto
    show ?thesis using False Cons.IH[OF Cons.prems]
      by (simp add: count_step_skip flt eq)
  next
    case True
    show ?thesis
    proof (cases "w \<in> set ks")
      case True
      then have "map_of (map ?v ks) w = Some (total_count df gc g w)"
        by (induction ks) auto
      then have st: "count_step df gc g (map ?v ks) w = map ?v ks"
        using \<open>counted df gc g w\<close> by (simp add: count_step_def dict_set_triv)
      from True have eq: "filter (\<lambda>y. y \<noteq> w \<and> counted df gc g y \<and> y \<notin> set ks) (unique ws)
       = filter (\<lambda>y. counted df gc g y \<and> y \<notin> set ks) (unique ws)"
        by (intro filter_cong) auto
      show ?thesis using True Cons.IH[OF Cons.prems]
        by (simp add: st flt eq)
    next
      case False
      then have "w \<notin> fst ` set (map ?v ks)" by (auto simp: image_iff)
      then have st: "count_step df gc g (map ?v ks) w = map ?v (ks @ [w])"
        using \<open>counted df gc g w\<close> by (simp add: count_step_def dict_set_new)
      have d: "distinct (ks @ [w])" using False Cons.prems by simp
      have eq: "filter (\<lambda>y. y \<noteq> w \<and> counted df gc g y \<and> y \<notin> set ks) (unique ws)
       = filter (\<lambda>y. counted df gc g y \<and> y \<notin> set (ks @ [w])) (unique ws)"
        by (intro filter_cong) auto
      show ?thesis using False \<open>counted df gc g w\<close> Cons.IH[OF d]
        by (simp add: st flt eq del: set_append)
    qed
  qed
qed

lemma foldl_count_step_Nil:
  "foldl (count_step df gc g) [] ws = counts_for df ws gc g"
  using foldl_count_step[of "[]" df gc g ws] by (simp add: counts_for_def)

lemma counts_for_Nil_iff:
  "counts_for df ws gc g = [] \<longleftrightarrow> filter (counted df gc g) ws = []"
  by (auto simp add: counts_for_def filter_empty_conv)

lemma aggregate_genre_new:
  assumes "g \<notin> fst ` set gwc"
  shows "aggregate_genre df ws gc gwc g =
          (if counts_for df ws gc g = [] then gwc else gwc @ [(g, counts_for df ws gc g)])"
  using foldl_aggregate_word_new[OF assms, of df gc ws]
  by (simp add: aggregate_genre_def foldl_count_step_Nil counts_for_Nil_iff)

lemma foldl_aggregate_genre:
  assumes "distinct gs" "set gs \<inter> fst ` set gwc = {}"
  shows "foldl (aggregate_genre df ws gc) gwc gs
         = gwc @ map (\<lambda>g. (g, counts_for df ws gc g))
                   (filter (\<lambda>g. counts_for df ws gc g \<noteq> []) gs)"
  using assms
proof (induction gs arbitrary: gwc)
  case Nil
  then show ?case by simp
next
  case (Cons g gs)
  from Cons.prems have g: "g \<notin> fst ` set gwc" by auto
  show ?case
  proof (cases "counts_for df ws gc g = []")
    case True
    then show ?thesis using Cons g by (simp add: aggregate_genre_new)
  next
    case False
    have "set gs \<inter> fst ` set (gwc @ [(g, counts_for df ws gc g)]) = {}"
      using Cons.prems by auto
    with Cons.IH[of "gwc @ [(g, counts_for df ws gc g)]"] Cons.prems
    show ?thesis using False g by (simp add: aggregate_genre_new)
  qed
qed

lemma aggregate_closed:
  "aggregate df ws gc = map (\<lambda>g. (g, counts_for df ws gc g))
                   (filter (\<lambda>g. counts_for df ws gc g \<noteq> []) (genres df gc))"
  using foldl_aggregate_genre[of "genres df gc" "[]" df ws gc]
  by (simp add: aggregate_def genres_def)

lemma df_count_pos:
  assumes "(g, d) \<in> set gwc" "w \<in> set (keys d)"
  shows "0 < df_count gwc w"
proof -
  from assms have "(g, d) \<in> set (filter (\<lambda>(g, d). w \<in> set (keys d)) gwc)" by simp
  then show ?thesis unfolding df_count_def by (rule length_pos_if_in_set)
qed

lemma df_count_le: "df_count gwc w \<le> length gwc"
  by (simp add: df_count_def)

lemma distinct_keys_counts_for: "distinct (map fst (counts_for df ws gc g))"
  by (simp add: counts_for_def comp_def distinct_map_filter)

lemma keys_aggregate:
  "map fst (aggregate df ws gc) = filter (\<lambda>g. counts_for df ws gc g \<noteq> []) (genres df gc)"
  by (simp add: aggregate_closed comp_def)

lemma distinct_keys_aggregate: "distinct (map fst (aggregate df ws gc))"
  by (simp add: keys_aggregate genres_def)

lemma aggregate_entry:
  "(g, d) \<in> set (aggregate df ws gc) \<longleftrightarrow>
     g \<in> set (genres df gc) \<and> d = counts_for df ws gc g \<and> d \<noteq> []"
  by (auto simp add: aggregate_closed)

lemma length_genre_count:
  "distinct (map fst gwc) \<Longrightarrow> length gwc = genre_count gwc"
  using distinct_card[of "map fst gwc"] by (simp add: genre_count_def keys_def)

lemma df_count_spec:
  assumes "distinct (map fst gwc)"
  shows "df_count gwc w = document_frequency gwc w"
proof -
  let ?S = "{e \<in> set gwc. w \<in> set (keys (snd e))}"
  have inj: "inj_on fst ?S"
  proof (rule inj_on_subset)
    show "inj_on fst (set gwc)" using assms by (simp add: distinct_map)
    show "?S \<subseteq> set gwc" by blast
  qed
  have "{g \<in> set (keys gwc). \<exists>d. map_of gwc g = Some d \<and> w \<in> set (keys d)} = fst ` ?S"
  proof (intro set_eqI iffI)
    fix g assume "g \<in> {g \<in> set (keys gwc). \<exists>d. map_of gwc g = Some d \<and> w \<in> set (keys d)}"
    then obtain d where "map_of gwc g = Some d" "w \<in> set (keys d)" by blast
    then have "(g, d) \<in> ?S" using assms by simp
    then show "g \<in> fst ` ?S" by (rule image_eqI[rotated]) simp
  next
    fix g assume "g \<in> fst ` ?S"
    then obtain e where e: "e \<in> set gwc" "w \<in> set (keys (snd e))" "g = fst e" by blast
    then have "map_of gwc g = Some (snd e)" using assms by simp
    moreover have "g \<in> set (keys gwc)" using e by (simp add: keys_def)
    ultimately show "g \<in> {g \<in> set (keys gwc). \<exists>d. map_of gwc g = Some d \<and> w \<in> set (keys d)}"
      using e by blast
  qed
  then have "document_frequency gwc w = card ?S"
    by (simp add: document_frequency_def card_image[OF inj])
  also have "?S = set (filter (\<lambda>(g, d). w \<in> set (keys d)) gwc)" by auto
  also have "card \<dots> = length (filter (\<lambda>(g, d). w \<in> set (keys d)) gwc)"
  proof (rule distinct_card)
    from assms have "distinct gwc" by (simp add: distinct_map)
    then show "distinct (filter (\<lambda>(g, d). w \<in> set (keys d)) gwc)" by simp
  qed
  finally show ?thesis by (simp add: df_count_def)
qed

lemma map_of_map_entry:
  assumes "distinct (map fst xs)" "(k, v) \<in> set xs" "\<And>p. fst (f p) = fst p"
  shows "map_of (map f xs) k = Some (snd (f (k, v)))"
proof -
  have "fst \<circ> f = fst" using assms(3) by (simp add: fun_eq_iff)
  then have "distinct (map fst (map f xs))" using assms(1) by simp
  moreover have "(k, snd (f (k, v))) \<in> set (map f xs)"
  proof -
    have "f (k, v) \<in> set (map f xs)" using assms(2) by simp
    moreover have "f (k, v) = (k, snd (f (k, v)))" using assms(3)[of "(k, v)"]
      by (simp add: prod_eq_iff)
    ultimately show ?thesis by simp
  qed
  ultimately show ?thesis by simp
qed

lemma counts_for_entry:
  "(w, tf) \<in> set (counts_for df ws gc g) \<longleftrightarrow>
     w \<in> set ws \<and> counted df gc g w \<and> tf = total_count df gc g w"
  by (auto simp add: counts_for_def)


lemma map_of_aggregate:
  "map_of (aggregate df ws gc) g = Some d \<longleftrightarrow>
     g \<in> set (genres df gc) \<and> d = counts_for df ws gc g \<and> d \<noteq> []"
  using distinct_keys_aggregate[of df ws gc] by (simp add: aggregate_entry)

lemma map_of_counts_for:
  "map_of (counts_for df ws gc g) w = Some c \<longleftrightarrow>
     w \<in> set ws \<and> counted df gc g w \<and> c = total_count df gc g w"
  using distinct_keys_counts_for[of df ws gc g] by (simp add: counts_for_entry)


lemma slice_to_take: "\<exists>k. slice_to xs n = take k xs"
  by (auto simp add: slice_to_def)

lemma length_slice_to: "0 \<le> n \<Longrightarrow> int (length (slice_to xs n)) \<le> n"
  by (simp add: slice_to_def)

lemma keys_counts_for:
  "set (keys (counts_for df ws gc g)) = {w \<in> set ws. counted df gc g w}"
  by (auto simp add: keys_def counts_for_def)

lemma genres_with_aggregate:
  "genres_with (aggregate df ws gc) w
   = {g \<in> set (keys (aggregate df ws gc)).
        \<exists>d. map_of (aggregate df ws gc) g = Some d \<and> w \<in> set (keys d)}"
proof (intro set_eqI iffI)
  fix g assume "g \<in> genres_with (aggregate df ws gc) w"
  then obtain d c where d: "map_of (aggregate df ws gc) g = Some d" and "map_of d w = Some c"
    by (auto simp add: genres_with_def)
  then have "w \<in> set (keys d)" by (auto simp add: keys_def dest: map_of_SomeD intro: rev_image_eqI)
  moreover from d have "g \<in> set (keys (aggregate df ws gc))"
    by (auto simp add: keys_def dest: map_of_SomeD intro: rev_image_eqI)
  ultimately show "g \<in> {g \<in> set (keys (aggregate df ws gc)).
        \<exists>d. map_of (aggregate df ws gc) g = Some d \<and> w \<in> set (keys d)}"
    using d by blast
next
  fix g assume "g \<in> {g \<in> set (keys (aggregate df ws gc)).
        \<exists>d. map_of (aggregate df ws gc) g = Some d \<and> w \<in> set (keys d)}"
  then obtain d where d: "map_of (aggregate df ws gc) g = Some d" and w: "w \<in> set (keys d)"
    by blast
  from d have dc: "d = counts_for df ws gc g" by (simp add: map_of_aggregate)
  with w have "w \<in> set ws" "counted df gc g w" by (simp_all add: keys_counts_for)
  then have "map_of d w = Some (total_count df gc g w)" "0 < total_count df gc g w"
    by (simp_all add: dc map_of_counts_for counted_def)
  with d show "g \<in> genres_with (aggregate df ws gc) w"
    unfolding genres_with_def by blast
qed

lemma card_genres_with:
  "card (genres_with (aggregate df ws gc) w) = df_count (aggregate df ws gc) w"
  by (simp add: genres_with_aggregate df_count_spec[OF distinct_keys_aggregate]
      document_frequency_def)

lemma dict_set_nonempty: "dict_set d k v \<noteq> []"
  by (induction d k v rule: dict_set.induct) auto

lemma word_freq_Nil_iff: "word_freq words = [] \<longleftrightarrow> words = []"
proof (cases words rule: rev_cases)
  case Nil
  then show ?thesis by (simp add: word_freq_def)
next
  case (snoc ys p)
  then show ?thesis by (simp add: word_freq_def dict_set_nonempty)
qed

lemma keys_Nil: "keys [] = []"
  by (simp add: keys_def)

lemma fst_set_dict_set: "fst ` set (dict_set d k v) = insert k (fst ` set d)"
  by (induction d k v rule: dict_set.induct) auto

lemma set_keys_dict_set: "set (keys (dict_set d k v)) = insert k (set (keys d))"
  by (simp add: keys_def fst_set_dict_set)

lemma distinct_keys_dict_set: "distinct (keys d) \<Longrightarrow> distinct (keys (dict_set d k v))"
  unfolding keys_def
  by (induction d k v rule: dict_set.induct) (auto simp add: fst_set_dict_set)

lemma foldl_freq_keep:
  assumes "\<forall>p\<in>set ys. spaced (fst p) \<noteq> k"
  shows "map_of (foldl (\<lambda>d p. dict_set d (spaced (fst p)) (snd p)) d ys) k = map_of d k"
  using assms by (induction ys arbitrary: d) (auto simp add: map_of_dict_set)

lemma foldl_freq_keys:
  "set (keys (foldl (\<lambda>d p. dict_set d (spaced (fst p)) (snd p)) d ys))
   = set (keys d) \<union> spaced ` fst ` set ys"
  by (induction ys arbitrary: d) (simp_all add: set_keys_dict_set)

lemma foldl_freq_distinct:
  "distinct (keys d) \<Longrightarrow> distinct (keys (foldl (\<lambda>d p. dict_set d (spaced (fst p)) (snd p)) d ys))"
  by (induction ys arbitrary: d) (simp_all add: distinct_keys_dict_set)

lemma wrap64_exact: "- (2 ^ 63) \<le> x \<Longrightarrow> x < 2 ^ 63 \<Longrightarrow> wrap64 x = x"
  by (simp add: wrap64_def)

lemma total_count_exact:
  assumes "- (2 ^ 63) \<le> exact_count df gc g w" "exact_count df gc g w < 2 ^ 63"
  shows "total_count df gc g w = exact_count df gc g w"
  using assms by (simp add: total_count_def wrap64_exact)


subsection \<open>The scoring loops in closed form\<close>

lemma defaultdict_get_entry:
  assumes "distinct (map fst gwc)" "(g, d) \<in> set gwc"
  shows "defaultdict_get gwc g = d"
  using assms by (simp add: defaultdict_get_def)

lemma score_word_ok:
  assumes "map_of (defaultdict_get gwc g) w = Some tf" "0 < df_count gwc w" "w \<notin> fst ` set ws"
  shows "score_word gwc g ws w = Inr (ws @ [tf_idf gwc (w, tf)])"
  using assms by (simp add: score_word_def idf_def tf_idf_def dict_set_new)

lemma score_words_closed:
  assumes "distinct (map fst ps)" "fst ` set ps \<inter> fst ` set ws = {}"
    and "\<forall>p\<in>set ps. 0 < df_count gwc (fst p)"
    and "\<forall>p\<in>set ps. map_of (defaultdict_get gwc g) (fst p) = Some (snd p)"
  shows "score_words gwc g ws (map fst ps) = Inr (ws @ map (tf_idf gwc) ps)"
  using assms
proof (induction ps arbitrary: ws)
  case Nil
  then show ?case by simp
next
  case (Cons p ps)
  from Cons.prems have "score_word gwc g ws (fst p) = Inr (ws @ [tf_idf gwc (fst p, snd p)])"
    by (intro score_word_ok) auto
  then have s: "score_word gwc g ws (fst p) = Inr (ws @ [tf_idf gwc p])" by simp
  have "fst ` set ps \<inter> fst ` set (ws @ [tf_idf gwc p]) = {}"
    using Cons.prems by (auto simp: tf_idf_def image_iff)
  with Cons.IH[of "ws @ [tf_idf gwc p]"] Cons.prems
  show ?case by (simp add: s)
qed

lemma score_words_aggregate:
  assumes "(g, counts) \<in> set (aggregate df ws gc)"
  shows "score_words (aggregate df ws gc) g [] (keys counts)
         = Inr (map (tf_idf (aggregate df ws gc)) counts)"
proof -
  let ?gwc = "aggregate df ws gc"
  from assms have c: "counts = counts_for df ws gc g" by (simp add: aggregate_entry)
  have dc: "distinct (map fst counts)" by (simp add: c distinct_keys_counts_for)
  have get: "defaultdict_get ?gwc g = counts"
    using distinct_keys_aggregate assms by (rule defaultdict_get_entry)
  have "score_words ?gwc g [] (map fst counts) = Inr ([] @ map (tf_idf ?gwc) counts)"
  proof (rule score_words_closed)
    show "distinct (map fst counts)" by (rule dc)
    show "fst ` set counts \<inter> fst ` set [] = {}" by simp
    show "\<forall>p\<in>set counts. 0 < df_count ?gwc (fst p)"
    proof
      fix p assume "p \<in> set counts"
      then have "fst p \<in> set (keys counts)" by (simp add: keys_def)
      with assms show "0 < df_count ?gwc (fst p)" by (rule df_count_pos)
    qed
    show "\<forall>p\<in>set counts. map_of (defaultdict_get ?gwc g) (fst p) = Some (snd p)"
      using dc by (simp add: get)
  qed
  then show ?thesis by (simp add: keys_def)
qed

lemma score_genres_closed:
  assumes "distinct gs" "set gs \<inter> fst ` set dw = {}"
    and "\<forall>g\<in>set gs. score_words gwc g [] (keys (defaultdict_get gwc g))
                        = Inr (map (tf_idf gwc) (defaultdict_get gwc g))"
  shows "score_genres float64 gwc top_n dw gs
         = Inr (dw @ map (\<lambda>g. scored float64 gwc top_n (g, defaultdict_get gwc g)) gs)"
  using assms
proof (induction gs arbitrary: dw)
  case Nil
  then show ?case by simp
next
  case (Cons g gs)
  let ?e = "scored float64 gwc top_n (g, defaultdict_get gwc g)"
  from Cons.prems have s: "score_words gwc g [] (keys (defaultdict_get gwc g))
                        = Inr (map (tf_idf gwc) (defaultdict_get gwc g))" by simp
  from Cons.prems have new: "g \<notin> fst ` set dw" by auto
  have "set gs \<inter> fst ` set (dw @ [?e]) = {}"
    using Cons.prems by (auto simp: scored_def image_iff)
  with Cons.IH[of "dw @ [?e]"] Cons.prems
  show ?case by (simp add: s dict_set_new[OF new] scored_def)
qed

lemma analyze_closed:
  assumes "gc \<in> set (columns df)"
  shows "analyze_genre_distinctive_words float64 df ws gc top_n
         = Inr (map (scored float64 (aggregate df ws gc) top_n) (aggregate df ws gc))"
proof -
  let ?gwc = "aggregate df ws gc"
  have dk: "distinct (map fst ?gwc)" by (rule distinct_keys_aggregate)
  have get: "defaultdict_get ?gwc (fst e) = snd e" if "e \<in> set ?gwc" for e
    using dk that by (intro defaultdict_get_entry) simp_all
  have "\<forall>g\<in>set (keys ?gwc). score_words ?gwc g [] (keys (defaultdict_get ?gwc g))
                        = Inr (map (tf_idf ?gwc) (defaultdict_get ?gwc g))"
  proof
    fix g assume "g \<in> set (keys ?gwc)"
    then obtain e where e: "e \<in> set ?gwc" "g = fst e" by (auto simp add: keys_def)
    then have "(g, snd e) \<in> set ?gwc" by simp
    then have "score_words ?gwc g [] (keys (snd e)) = Inr (map (tf_idf ?gwc) (snd e))"
      by (rule score_words_aggregate)
    then show "score_words ?gwc g [] (keys (defaultdict_get ?gwc g))
                        = Inr (map (tf_idf ?gwc) (defaultdict_get ?gwc g))"
      using get[OF e(1)] e(2) by simp
  qed
  with score_genres_closed[of "keys ?gwc" "[]" ?gwc float64 top_n] dk
  have "score_genres float64 ?gwc top_n [] (keys ?gwc)
        = Inr (map (\<lambda>g. scored float64 ?gwc top_n (g, defaultdict_get ?gwc g)) (keys ?gwc))"
    by (simp add: keys_def)
  moreover have "map (\<lambda>g. scored float64 ?gwc top_n (g, defaultdict_get ?gwc g)) (keys ?gwc)
                 = map (scored float64 ?gwc top_n) ?gwc"
    by (simp add: keys_def get)
  ultimately show ?thesis using assms by (simp add: analyze_genre_distinctive_words_def)
qed

lemma analyze_Inr:
  assumes "analyze_genre_distinctive_words float64 df ws gc top_n = Inr dw"
  shows "gc \<in> set (columns df)"
    and "dw = map (scored float64 (aggregate df ws gc) top_n) (aggregate df ws gc)"
proof -
  show c: "gc \<in> set (columns df)"
    using assms by (auto simp add: analyze_genre_distinctive_words_def split: if_splits)
  from analyze_closed[OF c, of float64 ws top_n] assms
  show "dw = map (scored float64 (aggregate df ws gc) top_n) (aggregate df ws gc)" by simp
qed

lemma keys_result:
  assumes "analyze_genre_distinctive_words float64 df ws gc top_n = Inr dw"
  shows "keys dw = keys (aggregate df ws gc)"
  by (simp add: analyze_Inr(2)[OF assms] keys_def scored_def comp_def)

lemma result_entry:
  assumes "analyze_genre_distinctive_words float64 df ws gc top_n = Inr dw"
    and "(g, ranked) \<in> set dw"
  shows "\<exists>counts. (g, counts) \<in> set (aggregate df ws gc)
           \<and> ranked = top_words float64 (map (tf_idf (aggregate df ws gc)) counts) top_n"
  using assms(2) unfolding analyze_Inr(2)[OF assms(1)]
  by (auto simp add: scored_def)

subsection \<open>Sorting\<close>

lemma sorted_reverse_descending:
  "sorted_wrt (\<lambda>a b. float64 b \<le> float64 a) (sorted_reverse float64 xs)"
proof -
  have "sorted (map float64 (sort_key float64 (rev xs)))" by (rule sorted_sort_key)
  then have "sorted_wrt (\<lambda>a b. float64 a \<le> float64 b) (sort_key float64 (rev xs))"
    by (simp add: sorted_wrt_map)
  then show ?thesis by (simp add: sorted_reverse_def sorted_wrt_rev)
qed

lemma sorted_reverse_stable:
  "filter (\<lambda>p. float64 p = k) (sorted_reverse float64 xs) = filter (\<lambda>p. float64 p = k) xs"
proof -
  have "filter (\<lambda>p. float64 p = k) (sorted_reverse float64 xs)
        = rev (filter (\<lambda>p. float64 p = k) (sort_key float64 (rev xs)))"
    by (simp add: sorted_reverse_def rev_filter)
  also have "\<dots> = rev (filter (\<lambda>p. float64 p = k) (rev xs))"
    by (simp add: sort_key_stable)
  also have "\<dots> = filter (\<lambda>p. float64 p = k) xs" by (simp add: rev_filter)
  finally show ?thesis .
qed

lemma set_sorted_reverse: "set (sorted_reverse float64 xs) = set xs"
  by (simp add: sorted_reverse_def)

subsection \<open>The small table, evaluated\<close>

lemmas example_defs = example_df_def example_words_def song_of_def example_counts_def

lemma example_genres: "genres example_df ''genre'' = [''rock'', ''jazz'', ''pop'']"
  by (simp add: genres_def example_defs)

lemma example_total:
  "total_count example_df ''genre'' ''rock'' ''guitar'' = 10"
  "exact_count example_df ''genre'' ''rock'' ''guitar'' = 10"
  "map (total_count example_df ''genre'' ''pop'') example_words = [0, 0, 0, 0, 0]"
  by (simp_all add: total_count_def exact_count_def wrap64_def genre_songs_def example_defs)

lemma example_aggregate: "aggregate example_df example_words ''genre'' = example_counts"
  by (simp add: aggregate_def aggregate_genre_def aggregate_word_def total_count_def
      exact_count_def wrap64_def genre_songs_def defaultdict_get_def example_defs)

lemma example_entries:
  "(''rock'', [(''guitar'', 10), (''love'', 5), (''baby'', 2)]) \<in> set example_counts"
  "(''jazz'', [(''swing'', 5), (''love'', 5), (''baby'', 1)]) \<in> set example_counts"
  by (simp_all add: example_counts_def)

lemma example_genre_column: "''genre'' \<in> set (columns example_df)"
  by (simp add: example_df_def)

lemma example_labels:
  "''pop'' \<in> (\<lambda>s. text_cells s ''genre'') ` set (songs example_df)"
  by (simp add: example_defs)

lemma example_df_count:
  "df_count example_counts ''guitar'' = 1" "df_count example_counts ''swing'' = 1"
  "df_count example_counts ''love'' = 2" "df_count example_counts ''baby'' = 2"
  by (simp_all add: df_count_def keys_def example_counts_def)

lemma example_get:
  "defaultdict_get example_counts ''rock'' = [(''guitar'', 10), (''love'', 5), (''baby'', 2)]"
  "defaultdict_get example_counts ''jazz'' = [(''swing'', 5), (''love'', 5), (''baby'', 1)]"
  by (simp_all add: defaultdict_get_def example_counts_def)

lemma example_scores:
  "score_words example_counts ''rock'' [] [''guitar'', ''love'', ''baby'']
     = Inr [(''guitar'', 10 * ln 2), (''love'', 0), (''baby'', 0)]"
  "score_words example_counts ''jazz'' [] [''swing'', ''love'', ''baby'']
     = Inr [(''swing'', 5 * ln 2), (''love'', 0), (''baby'', 0)]"
  by (simp_all add: score_word_def idf_def example_df_count example_get)
     (simp_all add: example_counts_def)

lemma example_sorted:
  "sorted_reverse exact [(''guitar'', 10 * ln 2), (''love'', 0), (''baby'', 0)]
     = [(''guitar'', 10 * ln 2), (''love'', 0), (''baby'', 0)]"
  "sorted_reverse exact [(''swing'', 5 * ln 2), (''love'', 0), (''baby'', 0)]
     = [(''swing'', 5 * ln 2), (''love'', 0), (''baby'', 0)]"
  by (simp_all add: sorted_reverse_def exact_def)

lemma example_analyze:
  "analyze_genre_distinctive_words exact example_df example_words ''genre'' n
     = Inr [(''rock'', slice_to [(''guitar'', 10 * ln 2), (''love'', 0), (''baby'', 0)] n),
            (''jazz'', slice_to [(''swing'', 5 * ln 2), (''love'', 0), (''baby'', 0)] n)]"
proof -
  have k: "keys example_counts = [''rock'', ''jazz'']"
    by (simp add: keys_def example_counts_def)
  have kk: "keys [(''guitar'', 10), (''love'', 5), (''baby'', 2 :: int)] = [''guitar'', ''love'', ''baby'']"
    "keys [(''swing'', 5), (''love'', 5), (''baby'', 1 :: int)] = [''swing'', ''love'', ''baby'']"
    by (simp_all add: keys_def)
  show ?thesis
    by (simp add: analyze_genre_distinctive_words_def example_aggregate example_genre_column k
        example_get kk example_scores top_words_def example_sorted del: score_words.simps)
qed

lemma example_analyze_2:
  "analyze_genre_distinctive_words exact example_df example_words ''genre'' 2
     = Inr [(''rock'', [(''guitar'', 10 * ln 2), (''love'', 0)]),
            (''jazz'', [(''swing'', 5 * ln 2), (''love'', 0)])]"
  by (simp add: example_analyze slice_to_def)

lemma example_analyze_20:
  "analyze_genre_distinctive_words exact example_df example_words ''genre'' 20
     = Inr [(''rock'', [(''guitar'', 10 * ln 2), (''love'', 0), (''baby'', 0)]),
            (''jazz'', [(''swing'', 5 * ln 2), (''love'', 0), (''baby'', 0)])]"
  by (simp add: example_analyze slice_to_def)

lemma example_genres_with:
  "genres_with example_counts ''guitar'' = {''rock''}"
  "genres_with example_counts ''love'' = {''rock'', ''jazz''}"
  by (auto simp add: genres_with_def example_counts_def split: if_splits)

lemma example_keys: "set (keys example_counts) = {''rock'', ''jazz''}"
  by (simp add: keys_def example_counts_def)

subsection \<open>The renderers\<close>

lemma render_cell_cloud:
  assumes "render_cell generate n i (genre, words) = Inr c" "words \<noteq> []"
  shows "\<exists>img. generate (word_freq words) = Inr img
           \<and> c = Cloud (genre @ '' - Distinctive Words'') img"
  using assms
  by (auto simp add: render_cell_def word_freq_Nil_iff split: sum.splits if_splits)

lemma render_cells_nth:
  assumes "render_cells generate n i (before @ e # after) = Inr cells"
  shows "render_cell generate n (i + length before) e = Inr (cells ! length before)"
  using assms
proof (induction before arbitrary: i cells)
  case Nil
  then show ?case by (auto split: sum.splits)
next
  case (Cons b before)
  from Cons.prems obtain c cs where
    "render_cells generate n (Suc i) (before @ e # after) = Inr cs" "cells = c # cs"
    by (auto split: sum.splits)
  with Cons.IH[of "Suc i" cs] show ?case by simp
qed

lemma save_other:
  assumes "save_individual_wordclouds generate savefig dw sp files = (files', err)"
    and "\<forall>e\<in>set dw. wordcloud_path sp (fst e) \<noteq> p"
  shows "files' p = files p"
  using assms
proof (induction dw arbitrary: files)
  case Nil
  then show ?case by simp
next
  case (Cons e dw)
  obtain g words where e: "e = (g, words)" by (cases e)
  from Cons.prems(2) have rest: "\<forall>e\<in>set dw. wordcloud_path sp (fst e) \<noteq> p"
    and here: "wordcloud_path sp g \<noteq> p" by (simp_all add: e)
  show ?case
  proof (cases "word_freq words = []")
    case True
    with Cons.prems(1) have "save_individual_wordclouds generate savefig dw sp files = (files', err)"
      by (simp add: e)
    then show ?thesis using rest by (rule Cons.IH)
  next
    case False
    show ?thesis
    proof (cases "generate (word_freq words)")
      case (Inl x)
      with Cons.prems(1) False show ?thesis by (simp add: e)
    next
      case (Inr img)
      show ?thesis
      proof (cases "savefig (wordcloud_path sp g)")
        case (Some x)
        with Cons.prems(1) False Inr show ?thesis by (simp add: e)
      next
        case None
        with Cons.prems(1) False Inr
        have "save_individual_wordclouds generate savefig dw sp
                (files(wordcloud_path sp g \<mapsto> img)) = (files', err)"
          by (simp add: e)
        then have "files' p = (files(wordcloud_path sp g \<mapsto> img)) p"
          using rest by (rule Cons.IH)
        with here show ?thesis by simp
      qed
    qed
  qed
qed

lemma save_entry:
  assumes "save_individual_wordclouds generate savefig (before @ (genre, words) # after) sp files
           = (files', None)"
    and "words \<noteq> []"
    and "\<forall>e\<in>set after. wordcloud_path sp (fst e) \<noteq> wordcloud_path sp genre"
  shows "\<exists>img. generate (word_freq words) = Inr img
           \<and> files' (wordcloud_path sp genre) = Some img"
  using assms(1)
proof (induction before arbitrary: files)
  case Nil
  from assms(2) have ne: "word_freq words \<noteq> []" by (simp add: word_freq_Nil_iff)
  from Nil ne obtain img where
    g: "generate (word_freq words) = Inr img"
    and r: "save_individual_wordclouds generate savefig after sp
              (files(wordcloud_path sp genre \<mapsto> img)) = (files', None)"
    by (auto split: sum.splits option.splits)
  from save_other[OF r assms(3)] g show ?case by simp
next
  case (Cons e before)
  obtain g ws where e: "e = (g, ws)" by (cases e)
  from Cons.prems obtain files1 where
    "save_individual_wordclouds generate savefig (before @ (genre, words) # after) sp files1
     = (files', None)"
    by (auto simp add: e split: if_splits sum.splits option.splits)
  then show ?case by (rule Cons.IH)
qed

lemma save_closed:
  "\<exists>W err.
     (\<forall>files. save_individual_wordclouds generate savefig dw sp files = (files ++ W, err))
     \<and> dom W \<subseteq> {wordcloud_path sp g |g words. (g, words) \<in> set dw \<and> words \<noteq> []}
     \<and> (err = None \<longrightarrow>
          dom W = {wordcloud_path sp g |g words. (g, words) \<in> set dw \<and> words \<noteq> []})"
proof (induction dw)
  case Nil
  show ?case by (intro exI[of _ Map.empty] exI[of _ None]) simp
next
  case (Cons e dw)
  obtain g words where e: "e = (g, words)" by (cases e)
  let ?S = "{wordcloud_path sp g |g words. (g, words) \<in> set dw \<and> words \<noteq> []}"
  let ?S' = "{wordcloud_path sp g' |g' words'. (g', words') \<in> set ((g, words) # dw) \<and> words' \<noteq> []}"
  from Cons.IH obtain W err where
    IH: "\<And>files. save_individual_wordclouds generate savefig dw sp files = (files ++ W, err)"
    and sub: "dom W \<subseteq> ?S" and full: "err = None \<Longrightarrow> dom W = ?S"
    by blast
  have S_skip: "?S' = ?S" if "words = []" using that by auto
  have S_add: "?S' = insert (wordcloud_path sp g) ?S" if "words \<noteq> []" using that by auto
  show ?case
  proof (cases "word_freq words = []")
    case True
    then have w: "words = []" by (simp add: word_freq_Nil_iff)
    show ?thesis
      unfolding e
      by (intro exI[of _ W] exI[of _ err])
         (use True IH sub full S_skip[OF w] in auto)
  next
    case False
    then have w: "words \<noteq> []" by (simp add: word_freq_Nil_iff)
    show ?thesis
    proof (cases "generate (word_freq words)")
      case (Inl x)
      show ?thesis
        unfolding e
        by (intro exI[of _ Map.empty] exI[of _ "Some x"]) (use False Inl in simp)
    next
      case (Inr img)
      show ?thesis
      proof (cases "savefig (wordcloud_path sp g)")
        case (Some x)
        show ?thesis
          unfolding e
          by (intro exI[of _ Map.empty] exI[of _ "Some x"]) (use False Inr Some in simp)
      next
        case None
        let ?W = "[wordcloud_path sp g \<mapsto> img] ++ W"
        have 1: "save_individual_wordclouds generate savefig ((g, words) # dw) sp files
                 = (files ++ ?W, err)" for files
          using False Inr None IH[of "files(wordcloud_path sp g \<mapsto> img)"]
          by (simp add: map_add_assoc map_add_upd_left[symmetric] del: map_add_upd_left)
        have dW: "dom ?W = insert (wordcloud_path sp g) (dom W)" by auto
        have 2: "dom ?W \<subseteq> ?S'" unfolding S_add[OF w] dW using sub by blast
        have 3: "dom ?W = ?S'" if "err = None" unfolding S_add[OF w] dW using full[OF that] by blast
        from 1 2 3 show ?thesis unfolding e by blast
      qed
    qed
  qed
qed

subsection \<open>Small runs of the renderers\<close>

lemma example_save:
  "save_individual_wordclouds draws_all writes_all
     [(''hip/hop'', [(''yo'', 1)]), (''rock'', [])] ''out/'' Map.empty
   = ([''out/hip_hop_wordcloud.png'' \<mapsto> [(''yo'', 1)]], None)"
  by (simp add: word_freq_def draws_all_def writes_all_def wordcloud_path_def replace_def)

lemma example_save_again:
  "save_individual_wordclouds draws_all writes_all
     [(''hip/hop'', [(''yo'', 1)]), (''rock'', [])] ''out/''
     [''out/hip_hop_wordcloud.png'' \<mapsto> [(''yo'', 1)]]
   = ([''out/hip_hop_wordcloud.png'' \<mapsto> [(''yo'', 1)]], None)"
  by (simp add: word_freq_def draws_all_def writes_all_def wordcloud_path_def replace_def)

lemma example_grid:
  "create_genre_wordclouds draws_all full_grid
     [(''rock'', [(''my_love'', 7), (''my love'', 3), (''baby'', 2)])] 2
   = Inr [Cloud ''rock - Distinctive Words''
            (word_freq [(''my_love'', 7), (''my love'', 3), (''baby'', 2)])]"
proof -
  have "word_freq [(''my_love'', 7), (''my love'', 3), (''baby'', 2)] \<noteq> []"
    by (simp add: word_freq_Nil_iff)
  then show ?thesis
    by (simp add: create_genre_wordclouds_def full_grid_def render_cell_def draws_all_def)
qed

lemma example_saved:
  "save_individual_wordclouds draws_all writes_all
     [(''rock'', [(''my_love'', 7), (''my love'', 3), (''baby'', 2)])] ''out/'' Map.empty
   = ([''out/rock_wordcloud.png'' \<mapsto> word_freq [(''my_love'', 7), (''my love'', 3), (''baby'', 2)]],
      None)"
proof -
  have "word_freq [(''my_love'', 7), (''my love'', 3), (''baby'', 2)] \<noteq> []"
    by (simp add: word_freq_Nil_iff)
  then show ?thesis
    by (simp add: draws_all_def writes_all_def wordcloud_path_def replace_def)
qed

section \<open>The claims\<close>

text \<open>
  Claim C1. For every genre \<open>g\<close> of the aggregated counts and every word \<open>w\<close> in the
  dictionary of \<open>g\<close>, the score the function assigns to \<open>w\<close> is \<open>tf * ln (G / df w)\<close>:
  \<open>tf\<close> is the total of the column \<open>w\<close> over the songs of \<open>g\<close> as the script sums it (the
  arithmetic sum whenever that fits into 64 bits), \<open>G\<close> is the number of genres present in
  the counts and \<open>df w\<close> the number of those genres whose dictionary contains \<open>w\<close>. The
  list returned for \<open>g\<close> is cut from these scores.
\<close>

theorem tf_idf_score:
  assumes "genre_column \<in> set (columns df)"
    and "(g, counts) \<in> set (aggregate df word_columns genre_column)"
    and "(w, tf) \<in> set counts"
  shows "\<exists>ws dw.
           score_words (aggregate df word_columns genre_column) g [] (keys counts) = Inr ws
         \<and> tf = total_count df genre_column g w
         \<and> (- (2 ^ 63) \<le> exact_count df genre_column g w
              \<and> exact_count df genre_column g w < 2 ^ 63
              \<longrightarrow> tf = exact_count df genre_column g w)
         \<and> map_of ws w = Some (real_of_int tf *
               ln (real (genre_count (aggregate df word_columns genre_column))
                   / real (document_frequency (aggregate df word_columns genre_column) w)))
         \<and> analyze_genre_distinctive_words float64 df word_columns genre_column top_n = Inr dw
         \<and> map_of dw g = Some (top_words float64 ws top_n)"
proof -
  let ?gwc = "aggregate df word_columns genre_column"
  have dk: "distinct (map fst ?gwc)" by (rule distinct_keys_aggregate)
  from assms(2) have c: "counts = counts_for df word_columns genre_column g"
    by (simp add: aggregate_entry)
  have 1: "score_words ?gwc g [] (keys counts) = Inr (map (tf_idf ?gwc) counts)"
    using assms(2) by (rule score_words_aggregate)
  have 2: "tf = total_count df genre_column g w"
    using assms(3) by (simp add: c counts_for_entry)
  have ex: "- (2 ^ 63) \<le> exact_count df genre_column g w
              \<and> exact_count df genre_column g w < 2 ^ 63
              \<longrightarrow> tf = exact_count df genre_column g w"
    by (simp add: 2 total_count_exact)
  have "map_of (map (tf_idf ?gwc) counts) w = Some (snd (tf_idf ?gwc (w, tf)))"
  proof (rule map_of_map_entry)
    show "distinct (map fst counts)" by (simp add: c distinct_keys_counts_for)
    show "(w, tf) \<in> set counts" by (rule assms(3))
    show "\<And>p. fst (tf_idf ?gwc p) = fst p" by (simp add: tf_idf_def)
  qed
  then have 3: "map_of (map (tf_idf ?gwc) counts) w = Some (real_of_int tf *
               ln (real (genre_count ?gwc) / real (document_frequency ?gwc w)))"
    by (simp add: tf_idf_def df_count_spec[OF dk] length_genre_count[OF dk])
  have 4: "analyze_genre_distinctive_words float64 df word_columns genre_column top_n
           = Inr (map (scored float64 ?gwc top_n) ?gwc)"
    using assms(1) by (rule analyze_closed)
  have "map_of (map (scored float64 ?gwc top_n) ?gwc) g = Some (snd (scored float64 ?gwc top_n (g, counts)))"
  proof (rule map_of_map_entry)
    show "distinct (map fst ?gwc)" by (rule dk)
    show "(g, counts) \<in> set ?gwc" by (rule assms(2))
    show "\<And>p. fst (scored float64 ?gwc top_n p) = fst p" by (simp add: scored_def)
  qed
  then have 5: "map_of (map (scored float64 ?gwc top_n) ?gwc) g
                = Some (top_words float64 (map (tf_idf ?gwc) counts) top_n)"
    by (simp add: scored_def)
  from 1 2 ex 3 4 5 show ?thesis by blast
qed

theorem tf_idf_score_witness:
  "''genre'' \<in> set (columns example_df)
   \<and> (''rock'', [(''guitar'', 10), (''love'', 5), (''baby'', 2)])
        \<in> set (aggregate example_df example_words ''genre'')
   \<and> (''guitar'', 10) \<in> set [(''guitar'', 10), (''love'', 5), (''baby'', 2 :: int)]
   \<and> - (2 ^ 63) \<le> exact_count example_df ''genre'' ''rock'' ''guitar''
   \<and> exact_count example_df ''genre'' ''rock'' ''guitar'' < 2 ^ 63
   \<and> (\<exists>ws dw.
           score_words (aggregate example_df example_words ''genre'') ''rock'' []
             (keys [(''guitar'', 10), (''love'', 5), (''baby'', 2 :: int)]) = Inr ws
         \<and> (10 :: int) = total_count example_df ''genre'' ''rock'' ''guitar''
         \<and> (10 :: int) = exact_count example_df ''genre'' ''rock'' ''guitar''
         \<and> map_of ws ''guitar'' = Some (real_of_int 10 *
               ln (real (genre_count (aggregate example_df example_words ''genre''))
                   / real (document_frequency (aggregate example_df example_words ''genre'')
                        ''guitar'')))
         \<and> analyze_genre_distinctive_words exact example_df example_words ''genre'' 20 = Inr dw
         \<and> map_of dw ''rock'' = Some (top_words exact ws 20))"
proof -
  have a: "''genre'' \<in> set (columns example_df)" by (rule example_genre_column)
  have b: "(''rock'', [(''guitar'', 10), (''love'', 5), (''baby'', 2)])
        \<in> set (aggregate example_df example_words ''genre'')"
    by (simp add: example_aggregate example_entries)
  have c: "(''guitar'', 10) \<in> set [(''guitar'', 10), (''love'', 5), (''baby'', 2 :: int)]"
    by simp
  have r: "- (2 ^ 63) \<le> exact_count example_df ''genre'' ''rock'' ''guitar''"
    "exact_count example_df ''genre'' ''rock'' ''guitar'' < 2 ^ 63"
    by (simp_all add: example_total)
  from tf_idf_score[OF a b c, of exact 20] obtain ws dw where
    "score_words (aggregate example_df example_words ''genre'') ''rock'' []
             (keys [(''guitar'', 10), (''love'', 5), (''baby'', 2 :: int)]) = Inr ws"
    "(10 :: int) = total_count example_df ''genre'' ''rock'' ''guitar''"
    "- (2 ^ 63) \<le> exact_count example_df ''genre'' ''rock'' ''guitar''
              \<and> exact_count example_df ''genre'' ''rock'' ''guitar'' < 2 ^ 63
              \<longrightarrow> (10 :: int) = exact_count example_df ''genre'' ''rock'' ''guitar''"
    "map_of ws ''guitar'' = Some (real_of_int 10 *
               ln (real (genre_count (aggregate example_df example_words ''genre''))
                   / real (document_frequency (aggregate example_df example_words ''genre'')
                        ''guitar'')))"
    "analyze_genre_distinctive_words exact example_df example_words ''genre'' 20 = Inr dw"
    "map_of dw ''rock'' = Some (top_words exact ws 20)"
    by blast
  with a b c r show ?thesis by blast
qed

text \<open>
  Claim C2. For every genre of the result the list of pairs is in non-increasing order of
  score, as the script compares scores, and it has at most \<open>top_n\<close> entries: as many as
  \<open>top_n\<close> and the number of scored words of the genre allow.
\<close>

theorem ranked_descending:
  assumes "analyze_genre_distinctive_words float64 df word_columns genre_column top_n = Inr dw"
    and "(g, ranked) \<in> set dw"
  shows "sorted_wrt (\<lambda>a b. float64 b \<le> float64 a) ranked
       \<and> (0 \<le> top_n \<longrightarrow>
            int (length ranked) \<le> top_n
          \<and> (\<exists>counts. map_of (aggregate df word_columns genre_column) g = Some counts
                \<and> length ranked = min (nat top_n) (length counts)))"
proof -
  let ?gwc = "aggregate df word_columns genre_column"
  from result_entry[OF assms] obtain counts where
    c: "(g, counts) \<in> set ?gwc"
    and r: "ranked = top_words float64 (map (tf_idf ?gwc) counts) top_n"
    by blast
  let ?items = "map (tf_idf ?gwc) counts"
  obtain k where k: "slice_to (sorted_reverse float64 ?items) top_n
                     = take k (sorted_reverse float64 ?items)"
    using slice_to_take by blast
  have "sorted_wrt (\<lambda>a b. float64 b \<le> float64 a) (take k (sorted_reverse float64 ?items))"
    by (rule sorted_wrt_take) (rule sorted_reverse_descending)
  then have 1: "sorted_wrt (\<lambda>a b. float64 b \<le> float64 a) ranked"
    by (simp add: r top_words_def k)
  have 2: "0 \<le> top_n \<longrightarrow> int (length ranked) \<le> top_n"
    by (simp add: r top_words_def length_slice_to)
  from c have m: "map_of ?gwc g = Some counts"
    using distinct_keys_aggregate[of df word_columns genre_column] by simp
  have "0 \<le> top_n \<longrightarrow> length ranked = min (nat top_n) (length counts)"
    by (simp add: r top_words_def slice_to_def sorted_reverse_def min.commute)
  with m have 3: "0 \<le> top_n \<longrightarrow>
      (\<exists>counts. map_of ?gwc g = Some counts \<and> length ranked = min (nat top_n) (length counts))"
    by blast
  from 1 2 3 show ?thesis by blast
qed

theorem ranked_descending_witness:
  "analyze_genre_distinctive_words exact example_df example_words ''genre'' 2
     = Inr [(''rock'', [(''guitar'', 10 * ln 2), (''love'', 0)]),
            (''jazz'', [(''swing'', 5 * ln 2), (''love'', 0)])]
   \<and> sorted_wrt (\<lambda>a b. exact b \<le> exact a) [(''guitar'', 10 * ln 2), (''love'', 0 :: real)]
   \<and> (0 :: int) \<le> 2
   \<and> int (length [(''guitar'', 10 * ln 2), (''love'', 0 :: real)]) \<le> 2
   \<and> (\<exists>counts. map_of (aggregate example_df example_words ''genre'') ''rock'' = Some counts
          \<and> length [(''guitar'', 10 * ln 2), (''love'', 0 :: real)]
              = min (nat 2) (length counts))"
proof -
  have m: "(''rock'', [(''guitar'', 10 * ln 2), (''love'', 0)])
        \<in> set [(''rock'', [(''guitar'', 10 * ln 2), (''love'', 0 :: real)]),
            (''jazz'', [(''swing'', 5 * ln 2), (''love'', 0)])]"
    by simp
  from ranked_descending[OF example_analyze_2 m] example_analyze_2 show ?thesis by simp
qed

text \<open>
  Claim C3. For a word scored in some genre: if it has a positive count in exactly one
  genre of the counts, its inverse document frequency is \<open>ln G\<close>, which no word exceeds;
  if it has a positive count in every genre of the counts, its inverse document frequency
  is \<open>0\<close> and so is its score, whatever its term frequency.
\<close>

theorem idf_extremes:
  assumes "(g, counts) \<in> set (aggregate df word_columns genre_column)"
    and "(w, tf) \<in> set counts"
  shows "(card (genres_with (aggregate df word_columns genre_column) w) = 1 \<longrightarrow>
            idf (aggregate df word_columns genre_column) w
              = Inr (ln (real (genre_count (aggregate df word_columns genre_column)))))
       \<and> (genres_with (aggregate df word_columns genre_column) w
            = set (keys (aggregate df word_columns genre_column)) \<longrightarrow>
            idf (aggregate df word_columns genre_column) w = Inr 0
          \<and> (\<exists>ws. score_words (aggregate df word_columns genre_column) g [] (keys counts)
                      = Inr ws
                \<and> map_of ws w = Some 0))
       \<and> (\<exists>i. idf (aggregate df word_columns genre_column) w = Inr i \<and> 0 \<le> i
              \<and> i \<le> ln (real (genre_count (aggregate df word_columns genre_column))))"
proof -
  let ?gwc = "aggregate df word_columns genre_column"
  have dk: "distinct (map fst ?gwc)" by (rule distinct_keys_aggregate)
  have G: "real (length ?gwc) = real (genre_count ?gwc)"
    by (simp add: length_genre_count[OF dk])
  from assms(2) have "w \<in> set (keys counts)" by (auto simp add: keys_def intro: rev_image_eqI)
  with assms(1) have pos: "0 < df_count ?gwc w" by (rule df_count_pos)
  have le: "df_count ?gwc w \<le> length ?gwc" by (rule df_count_le)
  have idf: "idf ?gwc w = Inr (ln (real (length ?gwc) / real (df_count ?gwc w)))"
    using pos by (simp add: idf_def)
  have one: "card (genres_with ?gwc w) = 1 \<longrightarrow> idf ?gwc w = Inr (ln (real (genre_count ?gwc)))"
    by (simp add: card_genres_with idf G)
  have all: "genres_with ?gwc w = set (keys ?gwc) \<longrightarrow>
            idf ?gwc w = Inr 0
          \<and> (\<exists>ws. score_words ?gwc g [] (keys counts) = Inr ws \<and> map_of ws w = Some 0)"
  proof
    assume "genres_with ?gwc w = set (keys ?gwc)"
    then have "card (genres_with ?gwc w) = genre_count ?gwc" by (simp add: genre_count_def)
    then have eq: "df_count ?gwc w = length ?gwc"
      by (simp add: card_genres_with length_genre_count[OF dk])
    with pos have i0: "idf ?gwc w = Inr 0" by (simp add: idf)
    have sw: "score_words ?gwc g [] (keys counts) = Inr (map (tf_idf ?gwc) counts)"
      using assms(1) by (rule score_words_aggregate)
    from assms(1) have c: "counts = counts_for df word_columns genre_column g"
      by (simp add: aggregate_entry)
    have "map_of (map (tf_idf ?gwc) counts) w = Some (snd (tf_idf ?gwc (w, tf)))"
    proof (rule map_of_map_entry)
      show "distinct (map fst counts)" by (simp add: c distinct_keys_counts_for)
      show "(w, tf) \<in> set counts" by (rule assms(2))
      show "\<And>p. fst (tf_idf ?gwc p) = fst p" by (simp add: tf_idf_def)
    qed
    moreover have "snd (tf_idf ?gwc (w, tf)) = 0" using pos by (simp add: tf_idf_def eq)
    ultimately show "idf ?gwc w = Inr 0
          \<and> (\<exists>ws. score_words ?gwc g [] (keys counts) = Inr ws \<and> map_of ws w = Some 0)"
      using i0 sw by simp
  qed
  have bound: "\<exists>i. idf ?gwc w = Inr i \<and> 0 \<le> i \<and> i \<le> ln (real (genre_count ?gwc))"
  proof -
    let ?q = "real (length ?gwc) / real (df_count ?gwc w)"
    from pos le have q1: "1 \<le> ?q" by (simp add: le_divide_eq)
    from pos have "?q \<le> real (length ?gwc)" by (simp add: divide_le_eq mult_le_cancel_left1)
    moreover from q1 have "0 < ?q" by linarith
    ultimately have "ln ?q \<le> ln (real (length ?gwc))" by (rule ln_mono)
    moreover from q1 have "0 \<le> ln ?q" by simp
    ultimately show ?thesis using idf by (simp add: G)
  qed
  from one all bound show ?thesis by blast
qed

theorem idf_extremes_witness:
  "card (genres_with (aggregate example_df example_words ''genre'') ''guitar'') = 1
   \<and> idf (aggregate example_df example_words ''genre'') ''guitar''
       = Inr (ln (real (genre_count (aggregate example_df example_words ''genre''))))
   \<and> genres_with (aggregate example_df example_words ''genre'') ''love''
       = set (keys (aggregate example_df example_words ''genre''))
   \<and> idf (aggregate example_df example_words ''genre'') ''love'' = Inr 0
   \<and> (\<exists>ws. score_words (aggregate example_df example_words ''genre'') ''rock'' []
               (keys [(''guitar'', 10), (''love'', 5), (''baby'', 2 :: int)]) = Inr ws
          \<and> map_of ws ''love'' = Some 0)"
proof -
  let ?gwc = "aggregate example_df example_words ''genre''"
  let ?counts = "[(''guitar'', 10), (''love'', 5), (''baby'', 2 :: int)]"
  have e: "(''rock'', ?counts) \<in> set ?gwc"
    by (simp add: example_aggregate example_entries)
  have g: "(''guitar'', 10) \<in> set ?counts" and l: "(''love'', 5) \<in> set ?counts"
    by simp_all
  have one: "card (genres_with ?gwc ''guitar'') = 1"
    by (simp add: example_aggregate example_genres_with)
  have all: "genres_with ?gwc ''love'' = set (keys ?gwc)"
    by (simp add: example_aggregate example_genres_with example_keys)
  from idf_extremes[OF e g] idf_extremes[OF e l] one all show ?thesis by blast
qed



text \<open>
  Claim C5, as amended. A genre of the table all of whose word columns sum to zero has no
  entry in the counts (reading it from the defaultdict would give the empty dictionary)
  and is not a key of the result. As stated, that the genre is mapped to an empty mapping
  and is a key of the result with an empty list, the claim fails for the genre \<open>pop\<close> of
  the table below.
\<close>

theorem zero_genre_absent:
  assumes "analyze_genre_distinctive_words float64 df word_columns genre_column top_n = Inr dw"
    and "g \<in> (\<lambda>s. text_cells s genre_column) ` set (songs df)"
    and "\<forall>w\<in>set word_columns. w \<in> set (columns df) \<longrightarrow> total_count df genre_column g w = 0"
  shows "map_of (aggregate df word_columns genre_column) g = None
       \<and> g \<notin> set (keys (aggregate df word_columns genre_column))
       \<and> defaultdict_get (aggregate df word_columns genre_column) g = []
       \<and> g \<notin> set (keys dw)"
proof -
  let ?gwc = "aggregate df word_columns genre_column"
  from assms(3) have "filter (counted df genre_column g) (unique word_columns) = []"
    by (auto simp add: filter_empty_conv counted_def)
  then have "counts_for df word_columns genre_column g = []" by (simp add: counts_for_def)
  then have k: "g \<notin> set (keys ?gwc)" by (simp add: keys_def keys_aggregate)
  then have n: "map_of ?gwc g = None" by (simp add: keys_def map_of_eq_None_iff)
  from k n show ?thesis
    by (simp add: keys_result[OF assms(1)] defaultdict_get_def)
qed

theorem zero_genre_absent_witness:
  "''pop'' \<in> set (genres example_df ''genre'')
   \<and> map (total_count example_df ''genre'' ''pop'') example_words = [0, 0, 0, 0, 0]
   \<and> map_of (aggregate example_df example_words ''genre'') ''pop'' = None
   \<and> ''pop'' \<notin> set (keys (aggregate example_df example_words ''genre''))
   \<and> defaultdict_get (aggregate example_df example_words ''genre'') ''pop'' = []
   \<and> ''pop'' \<notin> set (keys [(''rock'', [(''guitar'', 10 * ln 2), (''love'', 0), (''baby'', 0)]),
            (''jazz'', [(''swing'', 5 * ln 2), (''love'', 0 :: real), (''baby'', 0)])])"
proof -
  have z: "\<forall>w\<in>set example_words. w \<in> set (columns example_df)
             \<longrightarrow> total_count example_df ''genre'' ''pop'' w = 0"
    using example_total(3) by (simp add: example_words_def)
  from zero_genre_absent[OF example_analyze_20 example_labels z] example_total(3) example_genres
  show ?thesis by simp
qed

theorem zero_genre_counterexample:
  "''pop'' \<in> set (genres example_df ''genre'')
   \<and> map (total_count example_df ''genre'' ''pop'') example_words = [0, 0, 0, 0, 0]
   \<and> map_of (aggregate example_df example_words ''genre'') ''pop'' \<noteq> Some []
   \<and> analyze_genre_distinctive_words exact example_df example_words ''genre'' 20
       = Inr [(''rock'', [(''guitar'', 10 * ln 2), (''love'', 0), (''baby'', 0)]),
              (''jazz'', [(''swing'', 5 * ln 2), (''love'', 0), (''baby'', 0)])]
   \<and> map_of [(''rock'', [(''guitar'', 10 * ln 2), (''love'', 0), (''baby'', 0)]),
              (''jazz'', [(''swing'', 5 * ln 2), (''love'', 0 :: real), (''baby'', 0)])] ''pop''
       = None"
  by (simp add: example_analyze_20 example_total(3) example_genres example_aggregate
      example_counts_def)

text \<open>
  Claim C6. Whenever the inverse document frequency is computed for a word taken from
  the dictionary of some genre, the word is counted in at least one genre, so the division
  and the logarithm are defined; the function never raises \<open>ZeroDivisionError\<close>.
\<close>

theorem idf_defined:
  "(\<forall>e\<in>set (aggregate df word_columns genre_column). \<forall>p\<in>set (snd e).
       1 \<le> df_count (aggregate df word_columns genre_column) (fst p)
     \<and> (\<exists>i. idf (aggregate df word_columns genre_column) (fst p) = Inr i))
   \<and> analyze_genre_distinctive_words float64 df word_columns genre_column top_n
       \<noteq> Inl ZeroDivisionError"
proof (intro conjI ballI)
  let ?gwc = "aggregate df word_columns genre_column"
  fix e p assume e: "e \<in> set ?gwc" and p: "p \<in> set (snd e)"
  from p have "fst p \<in> set (keys (snd e))" by (simp add: keys_def)
  moreover from e have "(fst e, snd e) \<in> set ?gwc" by simp
  ultimately have "0 < df_count ?gwc (fst p)" by (rule df_count_pos[rotated])
  then show "1 \<le> df_count ?gwc (fst p)" "\<exists>i. idf ?gwc (fst p) = Inr i"
    by (simp_all add: idf_def)
next
  show "analyze_genre_distinctive_words float64 df word_columns genre_column top_n
          \<noteq> Inl ZeroDivisionError"
  proof (cases "genre_column \<in> set (columns df)")
    case True
    then show ?thesis by (simp add: analyze_closed)
  next
    case False
    then show ?thesis by (simp add: analyze_genre_distinctive_words_def)
  qed
qed

theorem idf_defined_witness:
  "(''jazz'', [(''swing'', 5), (''love'', 5), (''baby'', 1)])
        \<in> set (aggregate example_df example_words ''genre'')
   \<and> (''love'', 5) \<in> set [(''swing'', 5), (''love'', 5), (''baby'', 1 :: int)]
   \<and> 1 \<le> df_count (aggregate example_df example_words ''genre'') ''love''
   \<and> (\<exists>i. idf (aggregate example_df example_words ''genre'') ''love'' = Inr i)
   \<and> analyze_genre_distinctive_words exact example_df example_words ''genre'' 20
        \<noteq> Inl ZeroDivisionError"
proof -
  let ?e = "(''jazz'', [(''swing'', 5), (''love'', 5), (''baby'', 1 :: int)])"
  have b: "?e \<in> set (aggregate example_df example_words ''genre'')"
    by (simp add: example_aggregate example_entries)
  have c: "(''love'', 5) \<in> set (snd ?e)" by simp
  note t = idf_defined[of example_df example_words "''genre''" exact 20]
  from t have "\<forall>p\<in>set (snd ?e). 1 \<le> df_count (aggregate example_df example_words ''genre'') (fst p)
     \<and> (\<exists>i. idf (aggregate example_df example_words ''genre'') (fst p) = Inr i)"
    using b by blast
  with c have "1 \<le> df_count (aggregate example_df example_words ''genre'') (fst (''love'', 5::int))
     \<and> (\<exists>i. idf (aggregate example_df example_words ''genre'') (fst (''love'', 5::int)) = Inr i)"
    by blast
  with t b show ?thesis by simp
qed

text \<open>
  Claim C8. Within the list ranked for a genre, the words whose scores the script finds
  equal stand in the order in which they were put into the dictionary of the genre, which
  is the order of \<open>word_columns\<close>: for every value of the sort key, the entries of the
  ranked list with that key are an initial segment of the entries with that key in the
  dictionary of scores, whose keys are the counted words in the order of their first
  mention in \<open>word_columns\<close>.
\<close>

theorem ties_keep_order:
  assumes "analyze_genre_distinctive_words float64 df word_columns genre_column top_n = Inr dw"
    and "(g, ranked) \<in> set dw"
  shows "\<exists>counts ws.
           map_of (aggregate df word_columns genre_column) g = Some counts
         \<and> keys counts = filter (\<lambda>w. w \<in> set (columns df) \<and> 0 < total_count df genre_column g w)
                            (unique word_columns)
         \<and> score_words (aggregate df word_columns genre_column) g [] (keys counts) = Inr ws
         \<and> keys ws = keys counts
         \<and> (\<forall>k. prefix (filter (\<lambda>p. float64 p = k) ranked) (filter (\<lambda>p. float64 p = k) ws))"
proof -
  let ?gwc = "aggregate df word_columns genre_column"
  from result_entry[OF assms] obtain counts where
    c: "(g, counts) \<in> set ?gwc"
    and r: "ranked = top_words float64 (map (tf_idf ?gwc) counts) top_n"
    by blast
  let ?ws = "map (tf_idf ?gwc) counts"
  from c have 1: "map_of ?gwc g = Some counts"
    using distinct_keys_aggregate[of df word_columns genre_column] by simp
  from c have "counts = counts_for df word_columns genre_column g"
    by (simp add: aggregate_entry)
  then have 2: "keys counts = filter (\<lambda>w. w \<in> set (columns df) \<and> 0 < total_count df genre_column g w)
                            (unique word_columns)"
    by (simp add: keys_def counts_for_def comp_def counted_def[abs_def])
  have 3: "score_words ?gwc g [] (keys counts) = Inr ?ws" using c by (rule score_words_aggregate)
  have 4: "keys ?ws = keys counts" by (simp add: keys_def comp_def tf_idf_def)
  have 5: "prefix (filter (\<lambda>p. float64 p = k) ranked) (filter (\<lambda>p. float64 p = k) ?ws)" for k
  proof -
    obtain n where "ranked = take n (sorted_reverse float64 ?ws)"
      using slice_to_take[of "sorted_reverse float64 ?ws" top_n] by (auto simp add: r top_words_def)
    then have "prefix ranked (sorted_reverse float64 ?ws)" by (simp add: take_is_prefix)
    then have "prefix (filter (\<lambda>p. float64 p = k) ranked)
                 (filter (\<lambda>p. float64 p = k) (sorted_reverse float64 ?ws))"
      by (rule filter_mono_prefix)
    then show ?thesis by (simp add: sorted_reverse_stable)
  qed
  from 1 2 3 4 5 show ?thesis by blast
qed

theorem ties_keep_order_witness:
  "analyze_genre_distinctive_words exact example_df example_words ''genre'' 20
     = Inr [(''rock'', [(''guitar'', 10 * ln 2), (''love'', 0), (''baby'', 0)]),
            (''jazz'', [(''swing'', 5 * ln 2), (''love'', 0), (''baby'', 0)])]
   \<and> (\<exists>counts ws.
           map_of (aggregate example_df example_words ''genre'') ''rock'' = Some counts
         \<and> keys counts = filter (\<lambda>w. w \<in> set (columns example_df)
                                     \<and> 0 < total_count example_df ''genre'' ''rock'' w)
                            (unique example_words)
         \<and> score_words (aggregate example_df example_words ''genre'') ''rock'' [] (keys counts)
             = Inr ws
         \<and> keys ws = keys counts
         \<and> (\<forall>k. prefix (filter (\<lambda>p. exact p = k)
                              [(''guitar'', 10 * ln 2), (''love'', 0), (''baby'', 0)])
                     (filter (\<lambda>p. exact p = k) ws)))"
proof -
  have m: "(''rock'', [(''guitar'', 10 * ln 2), (''love'', 0), (''baby'', 0)])
        \<in> set [(''rock'', [(''guitar'', 10 * ln 2), (''love'', 0 :: real), (''baby'', 0)]),
            (''jazz'', [(''swing'', 5 * ln 2), (''love'', 0), (''baby'', 0)])]"
    by simp
  from ties_keep_order[OF example_analyze_20 m] example_analyze_20 show ?thesis by blast
qed

text \<open>
  Claim C9, as amended. Every file the function writes has the path \<open>save_path\<close>, then
  the name of a genre that has words, with every \<open>/\<close> replaced by \<open>_\<close>, then
  \<open>_wordcloud.png\<close>; when the function comes to its end, these are exactly the files it
  has written, and a second call that comes to its end writes to the same paths. As
  stated, for each genre, the claim fails: a genre without words is passed over and no
  path is formed for it.
\<close>

theorem wordcloud_paths:
  fixes generate :: "'img generate"
  assumes "save_individual_wordclouds generate savefig dw save_path files = (files', err)"
  shows "dom files' \<subseteq> dom files \<union>
           {save_path @ replace CHR ''/'' CHR ''_'' genre @ ''_wordcloud.png'' |genre words.
              (genre, words) \<in> set dw \<and> words \<noteq> []}
       \<and> (err = None \<longrightarrow>
            dom files' = dom files \<union>
              {save_path @ replace CHR ''/'' CHR ''_'' genre @ ''_wordcloud.png'' |genre words.
                 (genre, words) \<in> set dw \<and> words \<noteq> []}
          \<and> (\<forall>generate2 savefig2 files2.
                save_individual_wordclouds generate2 savefig2 dw save_path files' = (files2, None)
                \<longrightarrow> dom files2 = dom files'))"
proof -
  define S where "S = {wordcloud_path save_path g |g words. (g, words) \<in> set dw \<and> words \<noteq> []}"
  have run: "\<exists>W. files1 = files0 ++ W \<and> dom W \<subseteq> S \<and> (e = None \<longrightarrow> dom W = S)"
    if r: "save_individual_wordclouds gen sv dw save_path files0 = (files1, e)"
    for gen :: "'img generate" and sv files0 files1 e
  proof -
    from save_closed[of gen sv dw save_path] obtain W e' where
      all: "\<forall>files. save_individual_wordclouds gen sv dw save_path files = (files ++ W, e')"
      and sub: "dom W \<subseteq> S" and full: "e' = None \<longrightarrow> dom W = S"
      unfolding S_def by blast
    from all r have "files1 = files0 ++ W" "e = e'" by simp_all
    with sub full show ?thesis by blast
  qed
  from run[OF assms] obtain W where
    f: "files' = files ++ W" and sub: "dom W \<subseteq> S" and full: "err = None \<longrightarrow> dom W = S"
    by blast
  have d: "dom files' = dom files \<union> dom W" by (auto simp add: f)
  have 1: "dom files' \<subseteq> dom files \<union> S" unfolding d using sub by blast
  have 2: "dom files' = dom files \<union> S" if "err = None" unfolding d using full that by blast
  have 3: "dom files2 = dom files'"
    if "err = None"
      and "save_individual_wordclouds generate2 savefig2 dw save_path files' = (files2, None)"
    for generate2 :: "'img generate" and savefig2 files2
  proof -
    from run[OF that(2)] obtain W2 where "files2 = files' ++ W2" "dom W2 = S" by blast
    then have "dom files2 = dom files' \<union> S" by auto
    with 2[OF that(1)] show ?thesis by blast
  qed
  have S: "{save_path @ replace CHR ''/'' CHR ''_'' genre @ ''_wordcloud.png'' |genre words.
              (genre, words) \<in> set dw \<and> words \<noteq> []} = S"
    by (simp add: S_def wordcloud_path_def)
  show ?thesis
    unfolding S
  proof (intro conjI impI allI)
    show "dom files' \<subseteq> dom files \<union> S" by (rule 1)
    show "dom files' = dom files \<union> S" if "err = None" using that by (rule 2)
    show "dom files2 = dom files'"
      if "err = None"
        and "save_individual_wordclouds generate2 savefig2 dw save_path files' = (files2, None)"
      for generate2 :: "'img generate" and savefig2 files2
      using that by (rule 3)
  qed
qed

theorem wordcloud_paths_witness:
  "save_individual_wordclouds draws_all writes_all
     [(''hip/hop'', [(''yo'', 1)]), (''rock'', [])] ''out/'' Map.empty
   = ([''out/hip_hop_wordcloud.png'' \<mapsto> [(''yo'', 1)]], None)
   \<and> dom [''out/hip_hop_wordcloud.png'' \<mapsto> [(''yo'', 1 :: real)]]
       = dom (Map.empty :: string \<rightharpoonup> word_scores) \<union>
           {''out/'' @ replace CHR ''/'' CHR ''_'' genre @ ''_wordcloud.png'' |genre words.
              (genre, words) \<in> set [(''hip/hop'', [(''yo'', 1 :: real)]), (''rock'', [])]
              \<and> words \<noteq> []}
   \<and> save_individual_wordclouds draws_all writes_all
       [(''hip/hop'', [(''yo'', 1)]), (''rock'', [])] ''out/''
       [''out/hip_hop_wordcloud.png'' \<mapsto> [(''yo'', 1)]]
     = ([''out/hip_hop_wordcloud.png'' \<mapsto> [(''yo'', 1)]], None)"
  using wordcloud_paths[OF example_save] example_save example_save_again by simp

theorem wordcloud_paths_counterexample:
  "fst (save_individual_wordclouds draws_all writes_all [(''rock'', [])] ''out/'' Map.empty)
     (wordcloud_path ''out/'' ''rock'') = None
   \<and> snd (save_individual_wordclouds draws_all writes_all [(''rock'', [])] ''out/'' Map.empty)
     = None"
  by (simp add: word_freq_def)

text \<open>
  Claim C10. Both renderers build the frequency dictionary by replacing every underscore
  of a word by a space. When several words of a genre become the same string, the
  dictionary keeps one entry for it, with the score of the last of them: a word after which
  no word of the list becomes the same string has its score in the dictionary. It is from
  this dictionary that the word-cloud library draws the cell of the grid and the image of
  the saved file, whenever the renderer comes to its end.
\<close>

theorem underscore_collisions:
  assumes "words = xs @ (w, s) # ys"
    and "\<forall>p\<in>set ys. replace CHR ''_'' CHR '' '' (fst p) \<noteq> replace CHR ''_'' CHR '' '' w"
    and "dw = before @ (genre, words) # after"
  shows "map_of (word_freq words) (replace CHR ''_'' CHR '' '' w) = Some s
       \<and> set (keys (word_freq words)) = replace CHR ''_'' CHR '' '' ` fst ` set words
       \<and> distinct (keys (word_freq words))
       \<and> (\<forall>cells. create_genre_wordclouds generate subplots dw cols = Inr cells \<longrightarrow>
            (\<exists>img. generate (word_freq words) = Inr img
                 \<and> cells ! length before = Cloud (genre @ '' - Distinctive Words'') img))
       \<and> (\<forall>files'.
            save_individual_wordclouds generate' savefig dw save_path files = (files', None)
            \<and> (\<forall>e\<in>set after. wordcloud_path save_path (fst e) \<noteq> wordcloud_path save_path genre)
            \<longrightarrow> (\<exists>img. generate' (word_freq words) = Inr img
                    \<and> files' (wordcloud_path save_path genre) = Some img))"
proof -
  have ne: "words \<noteq> []" by (simp add: assms(1))
  have 1: "map_of (word_freq words) (spaced w) = Some s"
    unfolding word_freq_def assms(1) foldl_append foldl_Cons
    by (simp add: foldl_freq_keep[OF assms(2)] map_of_dict_set)
  have 2: "set (keys (word_freq words)) = spaced ` fst ` set words"
    by (simp add: word_freq_def foldl_freq_keys keys_Nil)
  have 3: "distinct (keys (word_freq words))"
    unfolding word_freq_def by (rule foldl_freq_distinct) (simp add: keys_Nil)
  have 4: "\<exists>img. generate (word_freq words) = Inr img
                 \<and> cells ! length before = Cloud (genre @ '' - Distinctive Words'') img"
    if "create_genre_wordclouds generate subplots dw cols = Inr cells" for cells
  proof -
    from that obtain n where "render_cells generate n 0 dw = Inr cells"
      by (auto simp add: create_genre_wordclouds_def split: if_splits sum.splits)
    then have "render_cell generate n (0 + length before) (genre, words)
               = Inr (cells ! length before)"
      unfolding assms(3) by (rule render_cells_nth)
    then show ?thesis using ne by (rule render_cell_cloud)
  qed
  have 5: "\<exists>img. generate' (word_freq words) = Inr img
                    \<and> files' (wordcloud_path save_path genre) = Some img"
    if "save_individual_wordclouds generate' savefig dw save_path files = (files', None)"
      and "\<forall>e\<in>set after. wordcloud_path save_path (fst e) \<noteq> wordcloud_path save_path genre"
    for files'
    using that(1) ne that(2) unfolding assms(3) by (rule save_entry)
  from 1 2 3 4 5 show ?thesis by blast
qed

theorem underscore_collisions_witness:
  "map_of (word_freq [(''my_love'', 7), (''my love'', 3), (''baby'', 2)]) ''my love'' = Some 3
   \<and> set (keys (word_freq [(''my_love'', 7), (''my love'', 3), (''baby'', 2)]))
       = {''my love'', ''baby''}
   \<and> create_genre_wordclouds draws_all full_grid
        [(''rock'', [(''my_love'', 7), (''my love'', 3), (''baby'', 2)])] 2
       = Inr [Cloud ''rock - Distinctive Words''
                (word_freq [(''my_love'', 7), (''my love'', 3), (''baby'', 2)])]
   \<and> (\<exists>img. draws_all (word_freq [(''my_love'', 7), (''my love'', 3), (''baby'', 2)]) = Inr img
          \<and> [Cloud ''rock - Distinctive Words''
                (word_freq [(''my_love'', 7), (''my love'', 3), (''baby'', 2)])] ! 0
              = Cloud ''rock - Distinctive Words'' img)
   \<and> save_individual_wordclouds draws_all writes_all
        [(''rock'', [(''my_love'', 7), (''my love'', 3), (''baby'', 2)])] ''out/'' Map.empty
       = ([''out/rock_wordcloud.png''
             \<mapsto> word_freq [(''my_love'', 7), (''my love'', 3), (''baby'', 2)]], None)
   \<and> (\<exists>img. draws_all (word_freq [(''my_love'', 7), (''my love'', 3), (''baby'', 2)]) = Inr img
          \<and> [''out/rock_wordcloud.png''
                \<mapsto> word_freq [(''my_love'', 7), (''my love'', 3), (''baby'', 2)]]
               (wordcloud_path ''out/'' ''rock'') = Some img)"
proof -
  let ?words = "[(''my_love'', 7), (''my love'', 3), (''baby'', 2 :: real)]"
  have a: "?words = [(''my_love'', 7)] @ (''my love'', 3) # [(''baby'', 2)]" by simp
  have b: "\<forall>p\<in>set [(''baby'', 2 :: real)].
             replace CHR ''_'' CHR '' '' (fst p) \<noteq> replace CHR ''_'' CHR '' '' ''my love''"
    by (simp add: replace_def)
  have c: "[(''rock'', ?words)] = [] @ (''rock'', ?words) # []" by simp
  have d: "\<forall>e\<in>set ([] :: distinctive_words).
             wordcloud_path ''out/'' (fst e) \<noteq> wordcloud_path ''out/'' ''rock''"
    by simp
  have r: "replace CHR ''_'' CHR '' '' ''my love'' = ''my love''"
    "replace CHR ''_'' CHR '' '' ''my_love'' = ''my love''"
    "replace CHR ''_'' CHR '' '' ''baby'' = ''baby''"
    by (simp_all add: replace_def)
  note t = underscore_collisions[OF a b c, of draws_all full_grid 2 draws_all writes_all
      "''out/''" Map.empty]
  from t have 1: "map_of (word_freq ?words) ''my love'' = Some 3"
    and 2: "set (keys (word_freq ?words)) = {''my love'', ''baby''}"
    by (auto simp add: r)
  from t example_grid have 3: "\<exists>img. draws_all (word_freq ?words) = Inr img
          \<and> [Cloud ''rock - Distinctive Words'' (word_freq ?words)] ! 0
              = Cloud ''rock - Distinctive Words'' img"
    by (simp add: draws_all_def)
  from t example_saved d have 4: "\<exists>img. draws_all (word_freq ?words) = Inr img
          \<and> [''out/rock_wordcloud.png'' \<mapsto> word_freq ?words]
               (wordcloud_path ''out/'' ''rock'') = Some img"
    by blast
  from 1 2 3 4 example_grid example_saved show ?thesis by blast
qed

end
